theory Spec2Isabelle
  imports Main "HOL-Library.Word"
begin

section \<open>The bounded counter and its command-line driver\<close>

text \<open>
  The repository's C side consists of \<^verbatim>\<open>counter.h\<close> (the declarations of the four
  counter operations on an opaque \<^verbatim>\<open>Counter *\<close>) and \<^verbatim>\<open>counter.c\<close> (the driver
  \<^verbatim>\<open>main\<close>). The bodies of the four operations are not among the C sources; they are
  modelled below from the specification. The driver is modelled from \<^verbatim>\<open>counter.c\<close>.
\<close>

subsection \<open>Machine types\<close>

type_synonym u32 = "32 word"
type_synonym u64 = "64 word"

text \<open>
  \<^verbatim>\<open>unsigned long long\<close> is 64 bits wide. \<^verbatim>\<open>size_t\<close> is taken to be 64 bits wide as
  well (an LP64 target), so the cast \<^verbatim>\<open>(size_t)strtoull(...)\<close> keeps every bit.
\<close>

type_synonym size_t = "64 word"

definition UINT32_MAX :: nat where
  "UINT32_MAX = 4294967295"

definition ULLONG_MAX :: nat where
  "ULLONG_MAX = 18446744073709551615"

subsection \<open>The world a process runs in\<close>

text \<open>
  A \<^verbatim>\<open>Counter *\<close> is an address; the counters that are currently allocated form a
  store from addresses to their 32-bit value. The world also holds the text written to
  standard output so far and, as a record of what happened, the counter operations
  that were called, in order, with what they returned.
\<close>

type_synonym handle = nat

datatype call =
    Create handle
  | Incr handle int
  | Get handle u32
  | Destroy handle int

record world =
  heap :: "handle \<rightharpoonup> u32"
  next_handle :: handle
  out :: string
  calls :: "call list"

definition world0 :: world where
  "world0 = \<lparr>heap = Map.empty, next_handle = 1, out = [], calls = []\<rparr>"

definition log_call :: "call \<Rightarrow> world \<Rightarrow> world" where
  "log_call e w = w\<lparr>calls := calls w @ [e]\<rparr>"

subsection \<open>The counter operations\<close>

text \<open>
  Modelled from the spec: the result codes of \<^verbatim>\<open>counter_incr\<close> and
  \<^verbatim>\<open>counter_destroy\<close>, which \<^verbatim>\<open>counter.h\<close> declares as \<^verbatim>\<open>int\<close> without naming
  values. The driver tests \<^verbatim>\<open>counter_incr(c) != 0\<close> for failure, so success is 0; the
  spec asks for the overflow signal to be a distinct code and for a failure signal of
  \<^verbatim>\<open>destroy\<close> on an invalid handle; both are taken to be \<open>-1\<close>.
\<close>

definition COUNTER_OK :: int where
  "COUNTER_OK = 0"

definition COUNTER_OVERFLOW :: int where
  "COUNTER_OVERFLOW = - 1"

definition COUNTER_INVALID_HANDLE :: int where
  "COUNTER_INVALID_HANDLE = - 1"

text \<open>
  Modelled from the spec: \<^verbatim>\<open>counter_create\<close>, declared in \<^verbatim>\<open>counter.h\<close>, body not
  among the sources. "create() \<rightarrow> handle to a new counter with value = 0. Always
  succeeds." The new counter lives at the next unused address.
\<close>

definition counter_create :: "world \<Rightarrow> handle \<times> world" where
  "counter_create w =
     (let h = next_handle w
      in (h, log_call (Create h)
               (w\<lparr>heap := (heap w)(h \<mapsto> 0), next_handle := Suc h\<rparr>)))"

text \<open>
  Modelled from the spec: \<^verbatim>\<open>counter_incr\<close>, declared in \<^verbatim>\<open>counter.h\<close>, body not
  among the sources. "increment(handle) attempts value = value + 1. On success, value
  increases by exactly 1 and the operation signals success. If value == UINT32_MAX, the
  operation leaves value unchanged and signals an overflow condition." The handle has to
  be live; using a released handle is undefined, which is the result \<open>None\<close>.
\<close>

definition counter_incr :: "handle \<Rightarrow> world \<Rightarrow> (int \<times> world) option" where
  "counter_incr h w =
     (case heap w h of
        None \<Rightarrow> None
      | Some v \<Rightarrow>
          if unat v = UINT32_MAX
          then Some (COUNTER_OVERFLOW, log_call (Incr h COUNTER_OVERFLOW) w)
          else Some (COUNTER_OK,
                     log_call (Incr h COUNTER_OK) (w\<lparr>heap := (heap w)(h \<mapsto> v + 1)\<rparr>)))"

text \<open>
  Modelled from the spec: \<^verbatim>\<open>counter_get\<close>, declared in \<^verbatim>\<open>counter.h\<close>, body not
  among the sources. "get(handle) returns the current value with no side effects.
  Precondition: handle is live."
\<close>

definition counter_get :: "handle \<Rightarrow> world \<Rightarrow> (u32 \<times> world) option" where
  "counter_get h w =
     (case heap w h of
        None \<Rightarrow> None
      | Some v \<Rightarrow> Some (v, log_call (Get h v) w))"

text \<open>
  Modelled from the spec: \<^verbatim>\<open>counter_destroy\<close>, declared in \<^verbatim>\<open>counter.h\<close>, body not
  among the sources. "destroy(handle) releases all storage owned by the counter. Signals
  a failure condition if passed an already-invalid handle (a defensive double-free
  check), otherwise signals success."
\<close>

definition counter_destroy :: "handle \<Rightarrow> world \<Rightarrow> int \<times> world" where
  "counter_destroy h w =
     (case heap w h of
        None \<Rightarrow> (COUNTER_INVALID_HANDLE, log_call (Destroy h COUNTER_INVALID_HANDLE) w)
      | Some v \<Rightarrow>
          (COUNTER_OK, log_call (Destroy h COUNTER_OK) (w\<lparr>heap := (heap w)(h := None)\<rparr>)))"

subsection \<open>Sequences of operations on one counter\<close>

text \<open>\<open>incr_times n h\<close> calls \<^verbatim>\<open>counter_incr\<close> on \<open>h\<close> \<open>n\<close> times and collects the codes.\<close>

fun incr_times :: "nat \<Rightarrow> handle \<Rightarrow> world \<Rightarrow> (int list \<times> world) option" where
  "incr_times 0 h w = Some ([], w)"
| "incr_times (Suc k) h w =
     (case counter_incr h w of
        None \<Rightarrow> None
      | Some (r, w1) \<Rightarrow>
          (case incr_times k h w1 of
             None \<Rightarrow> None
           | Some (rs, w2) \<Rightarrow> Some (r # rs, w2)))"

text \<open>Any sequence of \<^verbatim>\<open>counter_incr\<close> and \<^verbatim>\<open>counter_get\<close> calls on \<open>h\<close>.\<close>

datatype op = OpIncr | OpGet

fun run_ops :: "op list \<Rightarrow> handle \<Rightarrow> world \<Rightarrow> world option" where
  "run_ops [] h w = Some w"
| "run_ops (OpIncr # ops) h w =
     (case counter_incr h w of None \<Rightarrow> None | Some (r, w') \<Rightarrow> run_ops ops h w')"
| "run_ops (OpGet # ops) h w =
     (case counter_get h w of None \<Rightarrow> None | Some (g, w') \<Rightarrow> run_ops ops h w')"

text \<open>A recorded call that uses the counter \<open>h\<close> without creating or releasing it.\<close>

fun uses_handle :: "handle \<Rightarrow> call \<Rightarrow> bool" where
  "uses_handle h (Incr h' r) = (h' = h)"
| "uses_handle h (Get h' v) = (h' = h)"
| "uses_handle h (Create h') = False"
| "uses_handle h (Destroy h' r) = False"

subsection \<open>The C library functions the driver calls\<close>

text \<open>
  The driver never calls \<^verbatim>\<open>setlocale\<close>, so it runs in the "C" locale, where
  \<^verbatim>\<open>isspace\<close> holds for space, \<^verbatim>\<open>\t\<close>, \<^verbatim>\<open>\n\<close>, \<^verbatim>\<open>\v\<close>, \<^verbatim>\<open>\f\<close> and
  \<^verbatim>\<open>\r\<close>, and the decimal digits are the bytes 48 to 57.
\<close>

definition isspace :: "char \<Rightarrow> bool" where
  "isspace c = (c \<in> set [CHR '' '', CHR 0x09, CHR 0x0A, CHR 0x0B, CHR 0x0C, CHR 0x0D])"

definition isdigit :: "char \<Rightarrow> bool" where
  "isdigit c = (48 \<le> (of_char c :: nat) \<and> (of_char c :: nat) \<le> 57)"

definition digit_val :: "char \<Rightarrow> nat" where
  "digit_val c = of_char c - 48"

text \<open>The number a sequence of decimal digits denotes, most significant digit first.\<close>

definition decimal_value :: "string \<Rightarrow> nat" where
  "decimal_value ds = foldl (\<lambda>a c. 10 * a + digit_val c) 0 ds"

text \<open>
  \<^verbatim>\<open>strtoull(s, NULL, 10)\<close> as ISO C describes it: white space is skipped, then an
  optional sign, then the longest run of decimal digits is converted. With no digit
  there, no conversion is performed and the result is 0. A value beyond
  \<^verbatim>\<open>ULLONG_MAX\<close> gives \<^verbatim>\<open>ULLONG_MAX\<close>; otherwise a minus sign negates the value
  in the return type. The end pointer is \<^verbatim>\<open>NULL\<close> and the driver never reads
  \<^verbatim>\<open>errno\<close>, so neither is modelled.
\<close>

definition strtoull :: "string \<Rightarrow> u64" where
  "strtoull s =
     (let s1 = dropWhile isspace s;
          (neg, s2) = (case s1 of
                         [] \<Rightarrow> (False, s1)
                       | c # r \<Rightarrow> if c = CHR ''-'' then (True, r)
                                  else if c = CHR ''+'' then (False, r)
                                  else (False, s1));
          ds = takeWhile isdigit s2;
          v = decimal_value ds
      in if ds = [] then 0
         else if ULLONG_MAX < v then word_of_nat ULLONG_MAX
         else if neg then - word_of_nat v
         else word_of_nat v)"

text \<open>
  \<^verbatim>\<open>printf\<close> appends to standard output. The conversion \<^verbatim>\<open>"%" PRIu32\<close> writes
  an unsigned 32-bit value in decimal, without leading zeros; \<open>dec\<close> is that text.
\<close>

definition digit_char :: "nat \<Rightarrow> char" where
  "digit_char d = char_of (48 + d)"

fun dec :: "nat \<Rightarrow> string" where
  "dec n = (if n < 10 then [digit_char n] else dec (n div 10) @ [digit_char (n mod 10)])"

declare dec.simps [simp del]

definition printf :: "string \<Rightarrow> world \<Rightarrow> world" where
  "printf s w = w\<lparr>out := out w @ s\<rparr>"

subsection \<open>The driver\<close>

text \<open>
  The \<^verbatim>\<open>for\<close> loop of \<^verbatim>\<open>main\<close> (\<^verbatim>\<open>counter.c\<close>, lines 17 to 25), started at
  \<open>i\<close>. The body may return from \<^verbatim>\<open>main\<close>: the result \<open>Some (Some rc, w)\<close> is that
  early return with status \<open>rc\<close>, \<open>Some (None, w)\<close> is the loop running to its end, and
  \<open>None\<close> is undefined behaviour (a counter operation on a handle that is not live).
  \<open>i\<close> and \<open>n\<close> are \<^verbatim>\<open>size_t\<close>; \<open>i + 1\<close> cannot wrap because \<open>i < n\<close>, which is also
  why the loop terminates.
\<close>

function incr_loop :: "handle \<Rightarrow> size_t \<Rightarrow> size_t \<Rightarrow> world \<Rightarrow> (int option \<times> world) option" where
  "incr_loop c n i w =
     (if i < n then
        (case counter_incr c w of
           None \<Rightarrow> None
         | Some (r, w1) \<Rightarrow>
             if r \<noteq> 0 then
               (let w2 = printf (''overflow'' @ [CHR 0x0A]) w1;
                    (d, w3) = counter_destroy c w2
                in Some (Some (- 1), w3))
             else incr_loop c n (i + 1) w1)
      else Some (None, w))"
  by pat_completeness auto
termination
proof (relation "measure (\<lambda>(c, n, i, w). unat n - unat i)")
  show "wf (measure (\<lambda>(c, n, i, w). unat n - unat i))" by simp
next
  fix c :: handle and n i :: size_t and w w1 :: world
  assume "i < n"
  then have lt: "unat i < unat n" by (simp add: word_less_nat_alt)
  have "unat n < 2 ^ 64" using unsigned_less [of n, where ?'a = nat] by simp
  with lt have "unat i + 1 < 2 ^ 64" by simp
  then have "unat (i + 1) = Suc (unat i)" by (simp add: unat_word_ariths)
  with lt show "((c, n, i + 1, w1), c, n, i, w) \<in> measure (\<lambda>(c, n, i, w). unat n - unat i)"
    by simp
qed

declare incr_loop.simps [simp del]

text \<open>
  \<^verbatim>\<open>main\<close> (\<^verbatim>\<open>counter.c\<close>, lines 8 to 31). \<open>argv\<close> is the list of argument strings
  and \<^verbatim>\<open>argc\<close> its length. The result is the exit status together with the world at
  exit.
\<close>

definition main :: "string list \<Rightarrow> world \<Rightarrow> (int \<times> world) option" where
  "main argv w =
     (let argc = int (length argv) in
      if argc < 2 then Some (- 1, w)
      else
        let n = (ucast (strtoull (argv ! 1)) :: size_t);
            (c, w1) = counter_create w
        in case incr_loop c n 0 w1 of
             None \<Rightarrow> None
           | Some (Some rc, w2) \<Rightarrow> Some (rc, w2)
           | Some (None, w2) \<Rightarrow>
               (case counter_get c w2 of
                  None \<Rightarrow> None
                | Some (v, w3) \<Rightarrow>
                    let w4 = printf (dec (unat v) @ [CHR 0x0A]) w3;
                        (d, w5) = counter_destroy c w4
                    in Some (0, w5)))"

section \<open>Lemmas\<close>

subsection \<open>Arithmetic on the machine types\<close>

lemma unat_succ_u32: "unat (v :: u32) \<noteq> UINT32_MAX \<Longrightarrow> unat (v + 1) = Suc (unat v)"
proof -
  assume a: "unat v \<noteq> UINT32_MAX"
  have "unat v < 2 ^ 32" using unsigned_less [of v, where ?'a = nat] by simp
  with a have "unat v + 1 < 2 ^ 32" by (simp add: UINT32_MAX_def)
  then show ?thesis by (simp add: unat_word_ariths)
qed

lemma unat_le_UINT32_MAX: "unat (v :: u32) \<le> UINT32_MAX"
  using unsigned_less [of v, where ?'a = nat] by (simp add: UINT32_MAX_def)

lemma unat_succ_size_t: "(i :: size_t) < n \<Longrightarrow> unat (i + 1) = Suc (unat i)"
proof -
  assume "i < n"
  then have lt: "unat i < unat n" by (simp add: word_less_nat_alt)
  have "unat n < 2 ^ 64" using unsigned_less [of n, where ?'a = nat] by simp
  with lt have "unat i + 1 < 2 ^ 64" by simp
  then show ?thesis by (simp add: unat_word_ariths)
qed

subsection \<open>Single operations on a live counter\<close>

lemma counter_incr_ok:
  "heap w c = Some v \<Longrightarrow> unat v \<noteq> UINT32_MAX \<Longrightarrow>
   counter_incr c w = Some (COUNTER_OK,
     w\<lparr>heap := (heap w)(c \<mapsto> v + 1), calls := calls w @ [Incr c COUNTER_OK]\<rparr>)"
  by (simp add: counter_incr_def log_call_def)

lemma counter_incr_overflow:
  "heap w c = Some v \<Longrightarrow> unat v = UINT32_MAX \<Longrightarrow>
   counter_incr c w = Some (COUNTER_OVERFLOW, w\<lparr>calls := calls w @ [Incr c COUNTER_OVERFLOW]\<rparr>)"
  by (simp add: counter_incr_def log_call_def)

lemma counter_destroy_live:
  "heap w c = Some v \<Longrightarrow>
   counter_destroy c w = (COUNTER_OK,
     w\<lparr>heap := (heap w)(c := None), calls := calls w @ [Destroy c COUNTER_OK]\<rparr>)"
  by (simp add: counter_destroy_def log_call_def)

subsection \<open>The loop of the driver\<close>

lemma incr_loop_done: "\<not> i < n \<Longrightarrow> incr_loop c n i w = Some (None, w)"
  by (simp add: incr_loop.simps)

lemma incr_loop_step:
  "i < n \<Longrightarrow> counter_incr c w = Some (COUNTER_OK, w1) \<Longrightarrow>
   incr_loop c n i w = incr_loop c n (i + 1) w1"
  by (subst incr_loop.simps) (simp add: COUNTER_OK_def)

lemma incr_loop_abort:
  "i < n \<Longrightarrow> counter_incr c w = Some (COUNTER_OVERFLOW, w1) \<Longrightarrow>
   incr_loop c n i w =
     Some (Some (- 1), snd (counter_destroy c (printf (''overflow'' @ [CHR 0x0A]) w1)))"
  by (subst incr_loop.simps) (simp add: COUNTER_OVERFLOW_def split: prod.splits)

lemma incr_loop_completes:
  "heap w c = Some v \<Longrightarrow> i \<le> n \<Longrightarrow> unat n - unat i = k \<Longrightarrow> unat v + k \<le> UINT32_MAX \<Longrightarrow>
   incr_loop c n i w =
     Some (None, w\<lparr>heap := (heap w)(c \<mapsto> v + word_of_nat k),
                    calls := calls w @ replicate k (Incr c COUNTER_OK)\<rparr>)"
proof (induction k arbitrary: i v w)
  case 0
  then have "\<not> i < n" by (simp add: word_less_nat_alt word_le_nat_alt)
  moreover have "(heap w)(c \<mapsto> v) = heap w" using 0(1) by (rule fun_upd_idem)
  ultimately show ?case by (simp add: incr_loop_done)
next
  case (Suc k)
  from Suc.prems have lt: "i < n" by (simp add: word_less_nat_alt)
  from Suc.prems have nm: "unat v \<noteq> UINT32_MAX" by simp
  define w1 where
    "w1 = w\<lparr>heap := (heap w)(c \<mapsto> v + 1), calls := calls w @ [Incr c COUNTER_OK]\<rparr>"
  have step: "counter_incr c w = Some (COUNTER_OK, w1)"
    unfolding w1_def using Suc.prems(1) nm by (rule counter_incr_ok)
  have h1: "heap w1 c = Some (v + 1)" by (simp add: w1_def)
  have le: "i + 1 \<le> n" using lt by (rule inc_le)
  have k: "unat n - unat (i + 1) = k"
    using Suc.prems(3) by (simp add: unat_succ_size_t [OF lt])
  have b: "unat (v + 1) + k \<le> UINT32_MAX"
    using Suc.prems(4) by (simp add: unat_succ_u32 [OF nm])
  have "incr_loop c n i w = incr_loop c n (i + 1) w1"
    using lt step by (rule incr_loop_step)
  also have "\<dots> = Some (None, w1\<lparr>heap := (heap w1)(c \<mapsto> v + 1 + word_of_nat k),
                    calls := calls w1 @ replicate k (Incr c COUNTER_OK)\<rparr>)"
    using h1 le k b by (rule Suc.IH)
  also have "w1\<lparr>heap := (heap w1)(c \<mapsto> v + 1 + word_of_nat k),
                    calls := calls w1 @ replicate k (Incr c COUNTER_OK)\<rparr>
           = w\<lparr>heap := (heap w)(c \<mapsto> v + word_of_nat (Suc k)),
                    calls := calls w @ replicate (Suc k) (Incr c COUNTER_OK)\<rparr>"
    by (simp add: w1_def add.assoc)
  finally show ?case .
qed

lemma incr_loop_overflows:
  "heap w c = Some v \<Longrightarrow> UINT32_MAX - unat v = j \<Longrightarrow> j < unat n - unat i \<Longrightarrow>
   incr_loop c n i w =
     Some (Some (- 1),
       w\<lparr>heap := (heap w)(c := None),
         out := out w @ ''overflow'' @ [CHR 0x0A],
         calls := calls w @ replicate j (Incr c COUNTER_OK)
                    @ [Incr c COUNTER_OVERFLOW, Destroy c COUNTER_OK]\<rparr>)"
proof (induction j arbitrary: i v w)
  case 0
  then have lt: "i < n" by (simp add: word_less_nat_alt)
  have mx: "unat v = UINT32_MAX" using 0(2) unat_le_UINT32_MAX [of v] by simp
  define w1 where "w1 = w\<lparr>calls := calls w @ [Incr c COUNTER_OVERFLOW]\<rparr>"
  have step: "counter_incr c w = Some (COUNTER_OVERFLOW, w1)"
    unfolding w1_def using 0(1) mx by (rule counter_incr_overflow)
  define w2 where "w2 = printf (''overflow'' @ [CHR 0x0A]) w1"
  have h2: "heap w2 c = Some v"
    using 0(1) by (simp add: w2_def w1_def printf_def)
  have "incr_loop c n i w = Some (Some (- 1), snd (counter_destroy c w2))"
    unfolding w2_def using lt step by (rule incr_loop_abort)
  also have "counter_destroy c w2 = (COUNTER_OK,
     w2\<lparr>heap := (heap w2)(c := None), calls := calls w2 @ [Destroy c COUNTER_OK]\<rparr>)"
    using h2 by (rule counter_destroy_live)
  also have "snd (COUNTER_OK,
     w2\<lparr>heap := (heap w2)(c := None), calls := calls w2 @ [Destroy c COUNTER_OK]\<rparr>)
     = w\<lparr>heap := (heap w)(c := None),
         out := out w @ ''overflow'' @ [CHR 0x0A],
         calls := calls w @ replicate 0 (Incr c COUNTER_OK)
                    @ [Incr c COUNTER_OVERFLOW, Destroy c COUNTER_OK]\<rparr>"
    by (simp add: w2_def w1_def printf_def)
  finally show ?case .
next
  case (Suc j)
  from Suc.prems have lt: "i < n" by (simp add: word_less_nat_alt)
  from Suc.prems have nm: "unat v \<noteq> UINT32_MAX" by simp
  define w1 where
    "w1 = w\<lparr>heap := (heap w)(c \<mapsto> v + 1), calls := calls w @ [Incr c COUNTER_OK]\<rparr>"
  have step: "counter_incr c w = Some (COUNTER_OK, w1)"
    unfolding w1_def using Suc.prems(1) nm by (rule counter_incr_ok)
  have h1: "heap w1 c = Some (v + 1)" by (simp add: w1_def)
  have j: "UINT32_MAX - unat (v + 1) = j"
    using Suc.prems(2) by (simp add: unat_succ_u32 [OF nm])
  have b: "j < unat n - unat (i + 1)"
    using Suc.prems(3) by (simp add: unat_succ_size_t [OF lt])
  have "incr_loop c n i w = incr_loop c n (i + 1) w1"
    using lt step by (rule incr_loop_step)
  also have "\<dots> = Some (Some (- 1),
       w1\<lparr>heap := (heap w1)(c := None),
         out := out w1 @ ''overflow'' @ [CHR 0x0A],
         calls := calls w1 @ replicate j (Incr c COUNTER_OK)
                    @ [Incr c COUNTER_OVERFLOW, Destroy c COUNTER_OK]\<rparr>)"
    using h1 j b by (rule Suc.IH)
  also have "w1\<lparr>heap := (heap w1)(c := None),
         out := out w1 @ ''overflow'' @ [CHR 0x0A],
         calls := calls w1 @ replicate j (Incr c COUNTER_OK)
                    @ [Incr c COUNTER_OVERFLOW, Destroy c COUNTER_OK]\<rparr>
      = w\<lparr>heap := (heap w)(c := None),
         out := out w @ ''overflow'' @ [CHR 0x0A],
         calls := calls w @ replicate (Suc j) (Incr c COUNTER_OK)
                    @ [Incr c COUNTER_OVERFLOW, Destroy c COUNTER_OK]\<rparr>"
    by (simp add: w1_def)
  finally show ?case .
qed

subsection \<open>Parsing the argument\<close>

lemma isdigit_not_isspace: "isdigit c \<Longrightarrow> \<not> isspace c"
  by (auto simp add: isdigit_def isspace_def)

lemma isdigit_not_sign: "isdigit c \<Longrightarrow> c \<noteq> CHR ''-'' \<and> c \<noteq> CHR ''+''"
  by (auto simp add: isdigit_def)

lemma strtoull_digits:
  assumes "s \<noteq> []" and "\<forall>c\<in>set s. isdigit c"
  shows "strtoull s = (if ULLONG_MAX < decimal_value s then word_of_nat ULLONG_MAX
                       else word_of_nat (decimal_value s))"
proof -
  from assms obtain c r where s: "s = c # r" and c: "isdigit c"
    by (cases s) auto
  have d: "dropWhile isspace s = s"
    using c by (simp add: s isdigit_not_isspace)
  have t: "takeWhile isdigit s = s"
    using assms(2) by (simp add: takeWhile_eq_all_conv)
  show ?thesis
    unfolding strtoull_def d
    using isdigit_not_sign [OF c] assms(1) t
    by (simp add: s)
qed

lemma unat_strtoull_small:
  assumes "s \<noteq> []" and "\<forall>c\<in>set s. isdigit c" and "decimal_value s \<le> UINT32_MAX"
  shows "unat (strtoull s) = decimal_value s"
proof -
  have "decimal_value s \<le> ULLONG_MAX"
    using assms(3) by (simp add: UINT32_MAX_def ULLONG_MAX_def)
  then have "strtoull s = word_of_nat (decimal_value s)"
    using strtoull_digits [OF assms(1,2)] by simp
  moreover have "decimal_value s < 2 ^ 64"
    using assms(3) by (simp add: UINT32_MAX_def)
  ultimately show ?thesis by (simp add: unat_of_nat)
qed

lemma unat_strtoull_large:
  assumes "s \<noteq> []" and "\<forall>c\<in>set s. isdigit c" and "UINT32_MAX < decimal_value s"
  shows "UINT32_MAX < unat (strtoull s)"
proof (cases "ULLONG_MAX < decimal_value s")
  case True
  then have "strtoull s = word_of_nat ULLONG_MAX"
    using strtoull_digits [OF assms(1,2)] by simp
  then show ?thesis by (simp add: unat_of_nat ULLONG_MAX_def UINT32_MAX_def)
next
  case False
  then have "strtoull s = word_of_nat (decimal_value s)"
    using strtoull_digits [OF assms(1,2)] by simp
  moreover have "decimal_value s < 2 ^ 64"
    using False by (simp add: ULLONG_MAX_def)
  ultimately show ?thesis using assms(3) by (simp add: unat_of_nat)
qed

lemma strtoull_no_digits:
  assumes "\<not> (\<exists>ws sg d rest. s = ws @ sg @ d # rest \<and> (\<forall>c\<in>set ws. isspace c)
             \<and> (sg = [] \<or> sg = ''+'' \<or> sg = ''-'') \<and> isdigit d)"
  shows "strtoull s = 0"
proof -
  define ws where "ws = takeWhile isspace s"
  define s1 where "s1 = dropWhile isspace s"
  have s: "s = ws @ s1" by (simp add: ws_def s1_def)
  have ws: "\<forall>c\<in>set ws. isspace c" by (auto simp: ws_def dest: set_takeWhileD)
  have no: "\<And>sg d rest. s1 = sg @ d # rest \<Longrightarrow> sg = [] \<or> sg = ''+'' \<or> sg = ''-'' \<Longrightarrow> \<not> isdigit d"
    using assms s ws by blast
  have "takeWhile isdigit
          (snd (case s1 of [] \<Rightarrow> (False, s1)
                | c # r \<Rightarrow> if c = CHR ''-'' then (True, r)
                           else if c = CHR ''+'' then (False, r) else (False, s1))) = []"
  proof (cases s1)
    case Nil
    then show ?thesis by simp
  next
    case (Cons c r)
    show ?thesis
    proof (cases "c = CHR ''-'' \<or> c = CHR ''+''")
      case True
      have "takeWhile isdigit r = []"
      proof (cases r)
        case Nil then show ?thesis by simp
      next
        case (Cons d rest)
        have "s1 = [c] @ d # rest" by (simp add: \<open>s1 = c # r\<close> Cons)
        moreover have "[c] = [] \<or> [c] = ''+'' \<or> [c] = ''-''" using True by auto
        ultimately have "\<not> isdigit d" by (rule no)
        then show ?thesis by (simp add: Cons)
      qed
      then show ?thesis using True by (auto simp: Cons)
    next
      case False
      have "s1 = [] @ c # r" by (simp add: Cons)
      then have "\<not> isdigit c" by (rule no) simp
      then show ?thesis using False by (simp add: Cons)
    qed
  qed
  then show ?thesis
    unfolding strtoull_def s1_def [symmetric]
    by (simp add: Let_def case_prod_beta)
qed

subsection \<open>The two ways the driver runs with an argument\<close>

lemma counter_get_live:
  "heap w c = Some v \<Longrightarrow>
   counter_get c w = Some (v, w\<lparr>calls := calls w @ [Get c v]\<rparr>)"
  by (simp add: counter_get_def log_call_def)

lemma unat_word_of_nat_u32: "k \<le> UINT32_MAX \<Longrightarrow> unat (word_of_nat k :: u32) = k"
  by (simp add: unat_of_nat UINT32_MAX_def)

lemma main_unfold:
  assumes "2 \<le> length argv" and "c = next_handle w" and "n = strtoull (argv ! 1)"
    and "w1 = w\<lparr>heap := (heap w)(c \<mapsto> 0), next_handle := Suc c,
                   calls := calls w @ [Create c]\<rparr>"
  shows "main argv w =
     (case incr_loop c n 0 w1 of
        None \<Rightarrow> None
      | Some (Some rc, w2) \<Rightarrow> Some (rc, w2)
      | Some (None, w2) \<Rightarrow>
          (case counter_get c w2 of
             None \<Rightarrow> None
           | Some (v, w3) \<Rightarrow>
               Some (0, snd (counter_destroy c (printf (dec (unat v) @ [CHR 0x0A]) w3)))))"
proof -
  have "\<not> int (length argv) < 2" using assms(1) by simp
  then show ?thesis
    unfolding assms(2,3,4)
    by (simp add: main_def counter_create_def log_call_def Let_def case_prod_beta
        cong: option.case_cong)
qed

lemma main_counts:
  assumes argc: "2 \<le> length argv"
    and k: "unat (strtoull (argv ! 1)) = k" and small: "k \<le> UINT32_MAX"
  shows "main argv w = Some (0,
     w\<lparr>heap := (heap w)(next_handle w := None),
       next_handle := Suc (next_handle w),
       out := out w @ dec k @ [CHR 0x0A],
       calls := calls w @ [Create (next_handle w)]
                  @ replicate k (Incr (next_handle w) COUNTER_OK)
                  @ [Get (next_handle w) (word_of_nat k), Destroy (next_handle w) COUNTER_OK]\<rparr>)"
proof -
  define c where "c = next_handle w"
  define n where "n = strtoull (argv ! 1)"
  define w1 where "w1 = w\<lparr>heap := (heap w)(c \<mapsto> 0), next_handle := Suc c,
                calls := calls w @ [Create c]\<rparr>"
  define w2 where "w2 = w1\<lparr>heap := (heap w1)(c \<mapsto> 0 + word_of_nat k),
                    calls := calls w1 @ replicate k (Incr c COUNTER_OK)\<rparr>"
  define w3 where "w3 = w2\<lparr>calls := calls w2 @ [Get c (word_of_nat k)]\<rparr>"
  define w4 where "w4 = printf (dec k @ [CHR 0x0A]) w3"
  have h1: "heap w1 c = Some 0" by (simp add: w1_def)
  have le: "(0 :: size_t) \<le> n" by simp
  have rem: "unat n - unat (0 :: size_t) = k" using k by (simp add: n_def)
  have room: "unat (0 :: u32) + k \<le> UINT32_MAX" using small by simp
  have loop: "incr_loop c n 0 w1 = Some (None, w2)"
    unfolding w2_def using h1 le rem room by (rule incr_loop_completes)
  have h2: "heap w2 c = Some (word_of_nat k)" by (simp add: w2_def)
  have get: "counter_get c w2 = Some (word_of_nat k, w3)"
    unfolding w3_def using h2 by (rule counter_get_live)
  have h4: "heap w4 c = Some (word_of_nat k)"
    by (simp add: w4_def printf_def w3_def w2_def)
  have destroy: "counter_destroy c w4 = (COUNTER_OK,
     w4\<lparr>heap := (heap w4)(c := None), calls := calls w4 @ [Destroy c COUNTER_OK]\<rparr>)"
    using h4 by (rule counter_destroy_live)
  have "main argv w =
     (case incr_loop c n 0 w1 of
        None \<Rightarrow> None
      | Some (Some rc, w2) \<Rightarrow> Some (rc, w2)
      | Some (None, w2) \<Rightarrow>
          (case counter_get c w2 of
             None \<Rightarrow> None
           | Some (v, w3) \<Rightarrow>
               Some (0, snd (counter_destroy c (printf (dec (unat v) @ [CHR 0x0A]) w3)))))"
    using argc c_def n_def w1_def by (rule main_unfold)
  also have "\<dots> = Some (0, snd (counter_destroy c w4))"
    by (simp add: loop get w4_def unat_word_of_nat_u32 [OF small])
  also have "snd (counter_destroy c w4) =
     w4\<lparr>heap := (heap w4)(c := None), calls := calls w4 @ [Destroy c COUNTER_OK]\<rparr>"
    by (simp add: destroy)
  also have "\<dots> = w\<lparr>heap := (heap w)(c := None),
       next_handle := Suc c,
       out := out w @ dec k @ [CHR 0x0A],
       calls := calls w @ [Create c] @ replicate k (Incr c COUNTER_OK)
                  @ [Get c (word_of_nat k), Destroy c COUNTER_OK]\<rparr>"
    by (simp add: w4_def printf_def w3_def w2_def w1_def)
  finally show ?thesis by (simp only: c_def)
qed

lemma main_overflows:
  assumes argc: "2 \<le> length argv"
    and big: "UINT32_MAX < unat (strtoull (argv ! 1))"
  shows "main argv w = Some (- 1,
     w\<lparr>heap := (heap w)(next_handle w := None),
       next_handle := Suc (next_handle w),
       out := out w @ ''overflow'' @ [CHR 0x0A],
       calls := calls w @ [Create (next_handle w)]
                  @ replicate UINT32_MAX (Incr (next_handle w) COUNTER_OK)
                  @ [Incr (next_handle w) COUNTER_OVERFLOW,
                     Destroy (next_handle w) COUNTER_OK]\<rparr>)"
proof -
  define c where "c = next_handle w"
  define n where "n = strtoull (argv ! 1)"
  define w1 where "w1 = w\<lparr>heap := (heap w)(c \<mapsto> 0), next_handle := Suc c,
                calls := calls w @ [Create c]\<rparr>"
  define w2 where "w2 = w1\<lparr>heap := (heap w1)(c := None),
         out := out w1 @ ''overflow'' @ [CHR 0x0A],
         calls := calls w1 @ replicate UINT32_MAX (Incr c COUNTER_OK)
                    @ [Incr c COUNTER_OVERFLOW, Destroy c COUNTER_OK]\<rparr>"
  have h1: "heap w1 c = Some 0" by (simp add: w1_def)
  have left: "UINT32_MAX - unat (0 :: u32) = UINT32_MAX" by simp
  have more: "UINT32_MAX < unat n - unat (0 :: size_t)" using big by (simp add: n_def)
  have loop: "incr_loop c n 0 w1 = Some (Some (- 1), w2)"
    unfolding w2_def using h1 left more by (rule incr_loop_overflows)
  have "main argv w =
     (case incr_loop c n 0 w1 of
        None \<Rightarrow> None
      | Some (Some rc, w2) \<Rightarrow> Some (rc, w2)
      | Some (None, w2) \<Rightarrow>
          (case counter_get c w2 of
             None \<Rightarrow> None
           | Some (v, w3) \<Rightarrow>
               Some (0, snd (counter_destroy c (printf (dec (unat v) @ [CHR 0x0A]) w3)))))"
    using argc c_def n_def w1_def by (rule main_unfold)
  also have "\<dots> = Some (- 1, w2)"
    by (simp add: loop)
  also have "w2 = w\<lparr>heap := (heap w)(c := None),
       next_handle := Suc c,
       out := out w @ ''overflow'' @ [CHR 0x0A],
       calls := calls w @ [Create c] @ replicate UINT32_MAX (Incr c COUNTER_OK)
                  @ [Incr c COUNTER_OVERFLOW, Destroy c COUNTER_OK]\<rparr>"
    by (simp add: w2_def w1_def)
  finally show ?thesis by (simp only: c_def)
qed

subsection \<open>Sequences of operations\<close>

lemma incr_times_below_max:
  "heap w h = Some v \<Longrightarrow> unat v + k \<le> UINT32_MAX \<Longrightarrow>
   \<exists>w'. incr_times k h w = Some (replicate k COUNTER_OK, w')
       \<and> heap w' = (heap w)(h \<mapsto> v + word_of_nat k)"
proof (induction k arbitrary: w v)
  case 0
  then show ?case by (simp add: fun_upd_idem)
next
  case (Suc k)
  from Suc.prems have nm: "unat v \<noteq> UINT32_MAX" by simp
  define w1 where
    "w1 = w\<lparr>heap := (heap w)(h \<mapsto> v + 1), calls := calls w @ [Incr h COUNTER_OK]\<rparr>"
  have step: "counter_incr h w = Some (COUNTER_OK, w1)"
    unfolding w1_def using Suc.prems(1) nm by (rule counter_incr_ok)
  have h1: "heap w1 h = Some (v + 1)" by (simp add: w1_def)
  have "unat (v + 1) + k \<le> UINT32_MAX"
    using Suc.prems(2) nm by (simp add: unat_succ_u32)
  from Suc.IH [OF h1 this] obtain w' where
    r: "incr_times k h w1 = Some (replicate k COUNTER_OK, w')"
    and hp: "heap w' = (heap w1)(h \<mapsto> v + 1 + word_of_nat k)"
    by blast
  have hp': "heap w' = (heap w)(h \<mapsto> v + word_of_nat (Suc k))"
    using hp by (simp add: w1_def add.assoc)
  have "incr_times (Suc k) h w = Some (replicate (Suc k) COUNTER_OK, w')"
    using step r by simp
  with hp' show ?case by blast
qed

lemma run_ops_keeps_live:
  "heap w h = Some v \<Longrightarrow> \<exists>w' v'. run_ops ops h w = Some w' \<and> heap w' h = Some v'"
proof (induction ops arbitrary: w v)
  case Nil
  then show ?case by simp
next
  case (Cons x ops)
  show ?case
  proof (cases x)
    case OpIncr
    from Cons.prems obtain r w1 v1 where
      "counter_incr h w = Some (r, w1)" and "heap w1 h = Some v1"
      by (cases "unat v = UINT32_MAX")
         (auto simp: counter_incr_def log_call_def)
    with Cons.IH [of w1 v1] show ?thesis by (simp add: OpIncr)
  next
    case OpGet
    from Cons.prems have "counter_get h w = Some (v, w\<lparr>calls := calls w @ [Get h v]\<rparr>)"
      by (rule counter_get_live)
    moreover have "heap (w\<lparr>calls := calls w @ [Get h v]\<rparr>) h = Some v"
      using Cons.prems by simp
    ultimately show ?thesis
      using Cons.IH [of "w\<lparr>calls := calls w @ [Get h v]\<rparr>" v] by (simp add: OpGet)
  qed
qed

lemma uint_succ_u32: "unat (v :: u32) \<noteq> UINT32_MAX \<Longrightarrow> uint (v + 1) = uint v + 1"
proof -
  assume "unat v \<noteq> UINT32_MAX"
  then have "unat (v + 1) = Suc (unat v)" by (rule unat_succ_u32)
  then have "int (unat (v + 1)) = int (unat v) + 1" by simp
  then show ?thesis by simp
qed

subsection \<open>Decimal text\<close>

text \<open>\<open>dec\<close> writes digits only, and they denote the number written.\<close>

lemma decimal_value_snoc: "decimal_value (ds @ [c]) = 10 * decimal_value ds + digit_val c"
  by (simp add: decimal_value_def)

lemma digit_val_digit_char: "d < 10 \<Longrightarrow> digit_val (digit_char d) = d"
  by (simp add: digit_val_def digit_char_def)

lemma isdigit_digit_char: "d < 10 \<Longrightarrow> isdigit (digit_char d)"
  by (simp add: isdigit_def digit_char_def)

lemma decimal_value_dec: "decimal_value (dec n) = n"
proof (induction n rule: dec.induct)
  case (1 n)
  show ?case
  proof (cases "n < 10")
    case True
    then show ?thesis
      by (subst dec.simps) (simp add: decimal_value_def digit_val_digit_char)
  next
    case False
    then have "decimal_value (dec n) = 10 * decimal_value (dec (n div 10)) + n mod 10"
      by (subst dec.simps) (simp add: decimal_value_snoc digit_val_digit_char)
    then show ?thesis using 1 False by simp
  qed
qed

lemma dec_digits: "dec n \<noteq> [] \<and> (\<forall>c\<in>set (dec n). isdigit c)"
proof (induction n rule: dec.induct)
  case (1 n)
  show ?case
  proof (cases "n < 10")
    case True
    then show ?thesis by (subst (1 2) dec.simps) (simp add: isdigit_digit_char)
  next
    case False
    then show ?thesis using 1 by (subst (1 2) dec.simps) (simp add: isdigit_digit_char)
  qed
qed

text \<open>An argument without a digit where \<^verbatim>\<open>strtoull\<close> looks for one.\<close>

lemma abc_has_no_numeric_prefix:
  "\<not> (\<exists>ws sg d rest. ''abc'' = ws @ sg @ d # rest \<and> (\<forall>c\<in>set ws. isspace c)
             \<and> (sg = [] \<or> sg = ''+'' \<or> sg = ''-'') \<and> isdigit d)"
proof
  assume "\<exists>ws sg d rest. ''abc'' = ws @ sg @ d # rest \<and> (\<forall>c\<in>set ws. isspace c)
             \<and> (sg = [] \<or> sg = ''+'' \<or> sg = ''-'') \<and> isdigit d"
  then obtain ws sg d rest where eq: "''abc'' = ws @ sg @ d # rest"
    and ws: "\<forall>c\<in>set ws. isspace c"
    and sg: "sg = [] \<or> sg = ''+'' \<or> sg = ''-''" and d: "isdigit d"
    by blast
  have "ws = []"
  proof (cases ws)
    case Nil then show ?thesis .
  next
    case (Cons x xs)
    with eq have "x = CHR ''a''" by simp
    moreover have "isspace x" using ws Cons by simp
    ultimately show ?thesis by (simp add: isspace_def)
  qed
  with eq have "''abc'' = sg @ d # rest" by simp
  with sg have "d = CHR ''a''" by auto
  with d show False by (simp add: isdigit_def)
qed

section \<open>Properties of the counter operations\<close>

text \<open>
  C1. A live counter whose value is \<open>UINT32_MAX\<close>: \<^verbatim>\<open>increment\<close> returns (it is not
  undefined and does not abort), the code it returns is the overflow code, which differs
  from the success code, the store of counters is the same afterwards (the value did not
  wrap to 0), and \<^verbatim>\<open>get\<close> afterwards returns \<open>UINT32_MAX\<close>.
\<close>

theorem C1_incr_at_max_signals_overflow:
  assumes "heap w h = Some v" and "unat v = UINT32_MAX"
  shows "\<exists>w'. counter_incr h w = Some (COUNTER_OVERFLOW, w')
             \<and> COUNTER_OVERFLOW \<noteq> COUNTER_OK
             \<and> heap w' = heap w
             \<and> out w' = out w
             \<and> (\<exists>g w''. counter_get h w' = Some (g, w'') \<and> unat g = UINT32_MAX)"
  using assms
  by (simp add: counter_incr_def counter_get_def log_call_def
      COUNTER_OVERFLOW_def COUNTER_OK_def)

theorem C1_incr_at_max_witness:
  "heap (world0\<lparr>heap := [1 \<mapsto> 4294967295]\<rparr>) 1 = Some 4294967295
   \<and> unat (4294967295 :: u32) = UINT32_MAX
   \<and> (\<exists>w'. counter_incr 1 (world0\<lparr>heap := [1 \<mapsto> 4294967295]\<rparr>) = Some (COUNTER_OVERFLOW, w')
       \<and> COUNTER_OVERFLOW \<noteq> COUNTER_OK
       \<and> heap w' = [1 \<mapsto> 4294967295]
       \<and> out w' = []
       \<and> (\<exists>g w''. counter_get 1 w' = Some (g, w'') \<and> unat g = UINT32_MAX))"
  using C1_incr_at_max_signals_overflow
    [of "world0\<lparr>heap := [1 \<mapsto> 4294967295]\<rparr>" 1 4294967295]
  by (simp add: world0_def UINT32_MAX_def)

text \<open>
  C2. For every \<open>n\<close> from 0 to \<open>UINT32_MAX\<close>: \<^verbatim>\<open>get\<close> right after \<^verbatim>\<open>create\<close> returns
  0, and after \<open>n\<close> calls of \<^verbatim>\<open>increment\<close> on the new counter every call has returned the
  success code and \<^verbatim>\<open>get\<close> returns \<open>n\<close>.
\<close>

theorem C2_create_then_n_increments:
  assumes "n \<le> UINT32_MAX" and "counter_create w = (h, w1)"
  shows "(\<exists>w'. counter_get h w1 = Some (0, w'))
       \<and> (\<exists>w2 g w3. incr_times n h w1 = Some (replicate n COUNTER_OK, w2)
                  \<and> counter_get h w2 = Some (g, w3) \<and> unat g = n)"
proof -
  have h1: "heap w1 h = Some 0"
    using assms(2) by (auto simp: counter_create_def log_call_def Let_def)
  have "unat (0 :: u32) + n \<le> UINT32_MAX" using assms(1) by simp
  with h1 obtain w2 where
    run: "incr_times n h w1 = Some (replicate n COUNTER_OK, w2)"
    and h2: "heap w2 = (heap w1)(h \<mapsto> 0 + word_of_nat n)"
    using incr_times_below_max [of w1 h 0 n] by blast
  have "heap w2 h = Some (word_of_nat n)" by (simp add: h2)
  then have "counter_get h w2 = Some (word_of_nat n, w2\<lparr>calls := calls w2 @ [Get h (word_of_nat n)]\<rparr>)"
    by (rule counter_get_live)
  moreover have "unat (word_of_nat n :: u32) = n"
    using assms(1) by (rule unat_word_of_nat_u32)
  moreover have "\<exists>w'. counter_get h w1 = Some (0, w')"
    using h1 by (simp add: counter_get_def)
  ultimately show ?thesis using run by blast
qed

theorem C2_create_then_n_increments_witness:
  "(3 :: nat) \<le> UINT32_MAX
   \<and> counter_create world0
       = (1, \<lparr>heap = [1 \<mapsto> 0], next_handle = 2, out = [], calls = [Create 1]\<rparr>)
   \<and> (\<exists>w'. counter_get 1 \<lparr>heap = [1 \<mapsto> 0], next_handle = 2, out = [], calls = [Create 1]\<rparr>
             = Some (0, w'))
   \<and> (\<exists>w2 g w3. incr_times 3 1 \<lparr>heap = [1 \<mapsto> 0], next_handle = 2, out = [], calls = [Create 1]\<rparr>
                   = Some ([COUNTER_OK, COUNTER_OK, COUNTER_OK], w2)
                \<and> counter_get 1 w2 = Some (g, w3) \<and> unat g = 3)"
proof -
  have a: "(3 :: nat) \<le> UINT32_MAX" by (simp add: UINT32_MAX_def)
  have b: "counter_create world0
       = (1, \<lparr>heap = [1 \<mapsto> 0], next_handle = 2, out = [], calls = [Create 1]\<rparr>)"
    by (simp add: counter_create_def world0_def log_call_def)
  have r: "replicate 3 COUNTER_OK = [COUNTER_OK, COUNTER_OK, COUNTER_OK]"
    by (simp add: numeral_3_eq_3)
  show ?thesis
    using C2_create_then_n_increments [OF a b] a b by (simp only: r simp_thms)
qed

text \<open>
  C3. In every state reached from \<^verbatim>\<open>create\<close> by any sequence of \<^verbatim>\<open>increment\<close> and
  \<^verbatim>\<open>get\<close> calls, the counter is live and its value lies between 0 and \<open>UINT32_MAX\<close>.
  From such a state \<^verbatim>\<open>increment\<close> either succeeds and the value is larger by exactly 1
  (as a number, not modulo \<open>2^32\<close>), or the value is \<open>UINT32_MAX\<close>, the overflow code is
  returned and the store of counters is unchanged; \<^verbatim>\<open>get\<close> returns the value and leaves
  the store unchanged.
\<close>

theorem C3_value_stays_in_range:
  assumes "counter_create w0 = (h, w1)"
  shows "\<exists>w2 v. run_ops ops h w1 = Some w2 \<and> heap w2 h = Some v
           \<and> 0 \<le> uint v \<and> uint v \<le> int UINT32_MAX
           \<and> (\<exists>r w3. counter_incr h w2 = Some (r, w3)
                \<and> (r = COUNTER_OK \<and> heap w3 = (heap w2)(h \<mapsto> v + 1) \<and> uint (v + 1) = uint v + 1
                   \<or> r = COUNTER_OVERFLOW \<and> uint v = int UINT32_MAX \<and> heap w3 = heap w2))
           \<and> (\<exists>w3. counter_get h w2 = Some (v, w3) \<and> heap w3 = heap w2)"
proof -
  have "heap w1 h = Some 0"
    using assms by (auto simp: counter_create_def log_call_def Let_def)
  then obtain w2 v where run: "run_ops ops h w1 = Some w2" and live: "heap w2 h = Some v"
    using run_ops_keeps_live by blast
  have "uint v \<le> int UINT32_MAX"
    unfolding uint_nat using unat_le_UINT32_MAX [of v] by (simp only: of_nat_le_iff)
  then have range: "0 \<le> uint v \<and> uint v \<le> int UINT32_MAX" by simp
  have incr: "\<exists>r w3. counter_incr h w2 = Some (r, w3)
                \<and> (r = COUNTER_OK \<and> heap w3 = (heap w2)(h \<mapsto> v + 1) \<and> uint (v + 1) = uint v + 1
                   \<or> r = COUNTER_OVERFLOW \<and> uint v = int UINT32_MAX \<and> heap w3 = heap w2)"
  proof (cases "unat v = UINT32_MAX")
    case True
    then have "uint v = int UINT32_MAX" by (simp only: uint_nat)
    then show ?thesis
      using counter_incr_overflow [OF live True] by simp
  next
    case False
    then show ?thesis
      using counter_incr_ok [OF live False] uint_succ_u32 [OF False] by simp
  qed
  have get: "\<exists>w3. counter_get h w2 = Some (v, w3) \<and> heap w3 = heap w2"
    using counter_get_live [OF live] by simp
  from run live range incr get show ?thesis by blast
qed

theorem C3_value_stays_in_range_witness:
  "counter_create world0
     = (1, \<lparr>heap = [1 \<mapsto> 0], next_handle = 2, out = [], calls = [Create 1]\<rparr>)
   \<and> (\<exists>w2 v. run_ops [OpIncr, OpGet, OpIncr] 1
                 \<lparr>heap = [1 \<mapsto> 0], next_handle = 2, out = [], calls = [Create 1]\<rparr> = Some w2
           \<and> heap w2 1 = Some v
           \<and> 0 \<le> uint v \<and> uint v \<le> int UINT32_MAX
           \<and> (\<exists>r w3. counter_incr 1 w2 = Some (r, w3)
                \<and> (r = COUNTER_OK \<and> heap w3 = (heap w2)(1 \<mapsto> v + 1) \<and> uint (v + 1) = uint v + 1
                   \<or> r = COUNTER_OVERFLOW \<and> uint v = int UINT32_MAX \<and> heap w3 = heap w2))
           \<and> (\<exists>w3. counter_get 1 w2 = Some (v, w3) \<and> heap w3 = heap w2))"
proof -
  have b: "counter_create world0
       = (1, \<lparr>heap = [1 \<mapsto> 0], next_handle = 2, out = [], calls = [Create 1]\<rparr>)"
    by (simp add: counter_create_def world0_def log_call_def)
  show ?thesis
    using C3_value_stays_in_range [OF b, of "[OpIncr, OpGet, OpIncr]"] b by simp
qed

text \<open>
  C4. \<^verbatim>\<open>destroy\<close> on a live handle returns the success code and the handle is no longer
  live; \<^verbatim>\<open>destroy\<close> on that handle again, or on any handle that is not live (released or
  never created), returns the invalid-handle code, which differs from the success code,
  and changes no counter. \<^verbatim>\<open>destroy\<close> always returns.
\<close>

theorem C4_destroy_signals:
  "(heap w h = Some v \<longrightarrow>
      (\<exists>w'. counter_destroy h w = (COUNTER_OK, w') \<and> heap w' h = None
          \<and> (\<exists>w''. counter_destroy h w' = (COUNTER_INVALID_HANDLE, w'') \<and> heap w'' = heap w')))
   \<and> (heap w h = None \<longrightarrow>
      (\<exists>w'. counter_destroy h w = (COUNTER_INVALID_HANDLE, w') \<and> heap w' = heap w))
   \<and> COUNTER_INVALID_HANDLE \<noteq> COUNTER_OK"
  by (simp add: counter_destroy_def log_call_def COUNTER_INVALID_HANDLE_def COUNTER_OK_def)

theorem C4_destroy_signals_witness:
  "heap (world0\<lparr>heap := [1 \<mapsto> 7]\<rparr>) 1 = Some 7
   \<and> (\<exists>w'. counter_destroy 1 (world0\<lparr>heap := [1 \<mapsto> 7]\<rparr>) = (COUNTER_OK, w') \<and> heap w' 1 = None
          \<and> (\<exists>w''. counter_destroy 1 w' = (COUNTER_INVALID_HANDLE, w'') \<and> heap w'' = heap w'))
   \<and> heap (world0\<lparr>heap := [1 \<mapsto> 7]\<rparr>) 2 = None
   \<and> (\<exists>w'. counter_destroy 2 (world0\<lparr>heap := [1 \<mapsto> 7]\<rparr>) = (COUNTER_INVALID_HANDLE, w')
          \<and> heap w' = [1 \<mapsto> 7])"
  using C4_destroy_signals [of "world0\<lparr>heap := [1 \<mapsto> 7]\<rparr>" 1 7]
    C4_destroy_signals [of "world0\<lparr>heap := [1 \<mapsto> 7]\<rparr>" 2 7]
  by (simp add: world0_def)

section \<open>Properties of the driver\<close>

text \<open>
  C5. The argument is a non-empty string of decimal digits denoting \<open>n \<le> UINT32_MAX\<close>,
  and it is the only argument. The driver returns 0, writes the decimal text of \<open>n\<close> and a
  newline and nothing else, and the counter operations it calls are: one \<^verbatim>\<open>create\<close>,
  \<open>n\<close> successful \<^verbatim>\<open>increment\<close>s of that counter, one \<^verbatim>\<open>get\<close> returning \<open>n\<close>, one
  \<^verbatim>\<open>destroy\<close>. With the arguments \<^verbatim>\<open>5\<close> and \<^verbatim>\<open>0\<close> the output is \<^verbatim>\<open>5\<close> and
  \<^verbatim>\<open>0\<close>.
\<close>

theorem C5_driver_counts_to_n:
  assumes "s \<noteq> []" and "\<forall>c\<in>set s. isdigit c" and "decimal_value s \<le> UINT32_MAX"
  shows "\<exists>w'. main [p, s] w = Some (0, w')
           \<and> out w' = out w @ dec (decimal_value s) @ [CHR 0x0A]
           \<and> calls w' = calls w @ [Create (next_handle w)]
                          @ replicate (decimal_value s) (Incr (next_handle w) COUNTER_OK)
                          @ [Get (next_handle w) (word_of_nat (decimal_value s)),
                             Destroy (next_handle w) COUNTER_OK]"
proof -
  have argc: "2 \<le> length [p, s]" by simp
  have "unat (strtoull ([p, s] ! 1)) = decimal_value s"
    using assms by (simp add: unat_strtoull_small)
  from main_counts [OF argc this assms(3), of w] show ?thesis by simp
qed

theorem C5_driver_counts_to_n_witness:
  "''5'' \<noteq> [] \<and> list_all isdigit ''5'' \<and> decimal_value ''5'' \<le> UINT32_MAX
   \<and> ''0'' \<noteq> [] \<and> list_all isdigit ''0'' \<and> decimal_value ''0'' \<le> UINT32_MAX
   \<and> (\<exists>w'. main [''counter'', ''5''] world0 = Some (0, w')
        \<and> out w' = ''5'' @ [CHR 0x0A]
        \<and> calls w' = [Create 1, Incr 1 0, Incr 1 0, Incr 1 0, Incr 1 0, Incr 1 0, Get 1 5, Destroy 1 0])
   \<and> (\<exists>w'. main [''counter'', ''0''] world0 = Some (0, w')
        \<and> out w' = ''0'' @ [CHR 0x0A]
        \<and> calls w' = [Create 1, Get 1 0, Destroy 1 0])"
proof -
  have v5: "decimal_value ''5'' = 5" and v0: "decimal_value ''0'' = 0"
    by (simp_all add: decimal_value_def digit_val_def)
  have d5: "dec 5 = ''5''" and d0: "dec 0 = ''0''"
    by (simp_all add: dec.simps digit_char_def char_of_eq_iff take_bit_eq_mod)
  have r5: "replicate 5 x = [x, x, x, x, x]" for x :: call
    by (simp add: eval_nat_numeral)
  have h5: "''5'' \<noteq> [] \<and> (\<forall>c\<in>set ''5''. isdigit c) \<and> decimal_value ''5'' \<le> UINT32_MAX"
    by (simp add: isdigit_def v5 UINT32_MAX_def)
  have h0: "''0'' \<noteq> [] \<and> (\<forall>c\<in>set ''0''. isdigit c) \<and> decimal_value ''0'' \<le> UINT32_MAX"
    by (simp add: isdigit_def v0 UINT32_MAX_def)
  show ?thesis
    using C5_driver_counts_to_n [of "''5''" "''counter''" world0]
      C5_driver_counts_to_n [of "''0''" "''counter''" world0] h5 h0
    by (simp add: v5 v0 d5 d0 r5 world0_def COUNTER_OK_def)
qed

text \<open>
  C6. The argument is a non-empty string of decimal digits denoting a number above
  \<open>UINT32_MAX\<close> (however large). The driver returns \<open>-1\<close>, writes \<^verbatim>\<open>overflow\<close> and a
  newline and nothing else; after \<open>UINT32_MAX\<close> successful \<^verbatim>\<open>increment\<close>s the next one
  returns the overflow code, and the only call after that one is \<^verbatim>\<open>destroy\<close>: no further
  \<^verbatim>\<open>increment\<close>, and no \<^verbatim>\<open>get\<close>, so no value is printed.
\<close>

theorem C6_driver_reports_overflow:
  assumes "s \<noteq> []" and "\<forall>c\<in>set s. isdigit c" and "UINT32_MAX < decimal_value s"
  shows "\<exists>w'. main [p, s] w = Some (- 1, w')
           \<and> out w' = out w @ ''overflow'' @ [CHR 0x0A]
           \<and> calls w' = calls w @ [Create (next_handle w)]
                          @ replicate UINT32_MAX (Incr (next_handle w) COUNTER_OK)
                          @ [Incr (next_handle w) COUNTER_OVERFLOW,
                             Destroy (next_handle w) COUNTER_OK]
           \<and> COUNTER_OVERFLOW \<noteq> COUNTER_OK"
proof -
  have argc: "2 \<le> length [p, s]" by simp
  have "UINT32_MAX < unat (strtoull ([p, s] ! 1))"
    using assms by (simp add: unat_strtoull_large)
  from main_overflows [OF argc this, of w] show ?thesis
    by (simp add: COUNTER_OVERFLOW_def COUNTER_OK_def)
qed

theorem C6_driver_reports_overflow_witness:
  "''4294967296'' \<noteq> [] \<and> list_all isdigit ''4294967296''
   \<and> UINT32_MAX < decimal_value ''4294967296''
   \<and> (\<exists>w'. main [''counter'', ''4294967296''] world0 = Some (- 1, w')
           \<and> out w' = ''overflow'' @ [CHR 0x0A]
           \<and> calls w' = [Create 1] @ replicate 4294967295 (Incr 1 0) @ [Incr 1 (- 1), Destroy 1 0])"
proof -
  have h: "''4294967296'' \<noteq> [] \<and> (\<forall>c\<in>set ''4294967296''. isdigit c)
      \<and> UINT32_MAX < decimal_value ''4294967296''"
    by (simp add: isdigit_def decimal_value_def digit_val_def UINT32_MAX_def)
  show ?thesis
    using C6_driver_reports_overflow [of "''4294967296''" "''counter''" world0] h
    by (simp add: world0_def COUNTER_OK_def COUNTER_OVERFLOW_def UINT32_MAX_def)
qed

text \<open>
  C7. With fewer than two entries in \<open>argv\<close> the driver returns \<open>-1\<close> and the world is
  exactly the one it started in: nothing is written and no counter operation is called.
\<close>

theorem C7_no_argument:
  assumes "length argv < 2"
  shows "main argv w = Some (- 1, w)"
  using assms by (simp add: main_def)

theorem C7_no_argument_witness:
  "length [''counter''] < 2 \<and> main [''counter''] world0 = Some (- 1, world0)
   \<and> out world0 = [] \<and> calls world0 = [] \<and> main [] world0 = Some (- 1, world0)"
  using C7_no_argument [of "[''counter'']" world0] C7_no_argument [of "[]" world0]
  by (simp add: world0_def)

text \<open>
  C8. Whenever the driver gets past the argument check (these are the runs that create
  a counter), it returns, and the calls it made are: \<^verbatim>\<open>create\<close> of a counter, then only
  \<^verbatim>\<open>increment\<close> and \<^verbatim>\<open>get\<close> calls on that counter, then, last, a successful
  \<^verbatim>\<open>destroy\<close> of it. At exit that counter is not live, and every other address holds what
  it held at the start.
\<close>

theorem C8_counter_released_before_exit:
  assumes "2 \<le> length argv"
  shows "\<exists>rc w' uses. main argv w = Some (rc, w')
           \<and> calls w' = calls w @ [Create (next_handle w)] @ uses
                          @ [Destroy (next_handle w) COUNTER_OK]
           \<and> (\<forall>e\<in>set uses. uses_handle (next_handle w) e)
           \<and> heap w' = (heap w)(next_handle w := None)"
proof (cases "unat (strtoull (argv ! 1)) \<le> UINT32_MAX")
  case True
  define k where "k = unat (strtoull (argv ! 1))"
  define uses where "uses = replicate k (Incr (next_handle w) COUNTER_OK)
                      @ [Get (next_handle w) (word_of_nat k)]"
  define w' where "w' = w\<lparr>heap := (heap w)(next_handle w := None),
       next_handle := Suc (next_handle w),
       out := out w @ dec k @ [CHR 0x0A],
       calls := calls w @ [Create (next_handle w)]
                  @ replicate k (Incr (next_handle w) COUNTER_OK)
                  @ [Get (next_handle w) (word_of_nat k), Destroy (next_handle w) COUNTER_OK]\<rparr>"
  have small: "k \<le> UINT32_MAX" using True by (simp only: k_def)
  have run: "main argv w = Some (0, w')"
    unfolding w'_def using assms k_def [symmetric] small by (rule main_counts)
  have u: "\<forall>e\<in>set uses. uses_handle (next_handle w) e" by (auto simp: uses_def)
  have c: "calls w' = calls w @ [Create (next_handle w)] @ uses
                        @ [Destroy (next_handle w) COUNTER_OK]"
    by (simp add: w'_def uses_def)
  have h: "heap w' = (heap w)(next_handle w := None)" by (simp add: w'_def)
  from run c u h show ?thesis by blast
next
  case False
  define uses where "uses = replicate UINT32_MAX (Incr (next_handle w) COUNTER_OK)
                      @ [Incr (next_handle w) COUNTER_OVERFLOW]"
  define w' where "w' = w\<lparr>heap := (heap w)(next_handle w := None),
       next_handle := Suc (next_handle w),
       out := out w @ ''overflow'' @ [CHR 0x0A],
       calls := calls w @ [Create (next_handle w)]
                  @ replicate UINT32_MAX (Incr (next_handle w) COUNTER_OK)
                  @ [Incr (next_handle w) COUNTER_OVERFLOW,
                     Destroy (next_handle w) COUNTER_OK]\<rparr>"
  from False have big: "UINT32_MAX < unat (strtoull (argv ! 1))" by simp
  have run: "main argv w = Some (- 1, w')"
    unfolding w'_def using assms big by (rule main_overflows)
  have u: "\<forall>e\<in>set uses. uses_handle (next_handle w) e" by (auto simp: uses_def)
  have c: "calls w' = calls w @ [Create (next_handle w)] @ uses
                        @ [Destroy (next_handle w) COUNTER_OK]"
    by (simp add: w'_def uses_def)
  have h: "heap w' = (heap w)(next_handle w := None)" by (simp add: w'_def)
  from run c u h show ?thesis by blast
qed

theorem C8_counter_released_before_exit_witness:
  "2 \<le> length [''counter'', ''2'']
   \<and> (\<exists>rc w' uses. main [''counter'', ''2''] world0 = Some (rc, w')
           \<and> calls w' = [Create 1] @ uses @ [Destroy 1 0]
           \<and> (\<forall>e\<in>set uses. uses_handle 1 e)
           \<and> heap w' = Map.empty)"
  using C8_counter_released_before_exit [of "[''counter'', ''2'']" world0]
  by (simp add: world0_def COUNTER_OK_def)

text \<open>
  C9. The argument does not consist of white space, then an optional sign, then a
  decimal digit, then anything. \<^verbatim>\<open>strtoull\<close> returns 0 for it, and the driver does exactly
  what it does for the argument \<^verbatim>\<open>0\<close>: no \<^verbatim>\<open>increment\<close>, output \<^verbatim>\<open>0\<close> and a newline,
  status 0.
\<close>

theorem C9_no_digits_means_zero:
  assumes "\<not> (\<exists>ws sg d rest. s = ws @ sg @ d # rest \<and> (\<forall>c\<in>set ws. isspace c)
             \<and> (sg = [] \<or> sg = ''+'' \<or> sg = ''-'') \<and> isdigit d)"
  shows "strtoull s = 0
       \<and> main [p, s] w = main [p, ''0''] w
       \<and> (\<exists>w'. main [p, s] w = Some (0, w')
             \<and> out w' = out w @ ''0'' @ [CHR 0x0A]
             \<and> calls w' = calls w @ [Create (next_handle w), Get (next_handle w) 0,
                                      Destroy (next_handle w) COUNTER_OK])"
proof -
  have z: "strtoull s = 0" using assms by (rule strtoull_no_digits)
  have argc: "2 \<le> length [p, s]" and argc0: "2 \<le> length [p, ''0'']" by simp_all
  have k: "unat (strtoull ([p, s] ! 1)) = 0" by (simp add: z)
  have "''0'' \<noteq> [] \<and> (\<forall>c\<in>set ''0''. isdigit c)" by (simp add: isdigit_def)
  then have "strtoull ''0'' = 0"
    by (simp add: strtoull_digits decimal_value_def digit_val_def)
  then have k0: "unat (strtoull ([p, ''0''] ! 1)) = 0" by simp
  have d0: "dec 0 = ''0''"
    by (simp add: dec.simps digit_char_def char_of_eq_iff take_bit_eq_mod)
  have small: "(0 :: nat) \<le> UINT32_MAX" by simp
  have a: "main [p, s] w = main [p, ''0''] w"
    by (simp only: main_counts [OF argc k small] main_counts [OF argc0 k0 small])
  have b: "\<exists>w'. main [p, s] w = Some (0, w')
             \<and> out w' = out w @ ''0'' @ [CHR 0x0A]
             \<and> calls w' = calls w @ [Create (next_handle w), Get (next_handle w) 0,
                                      Destroy (next_handle w) COUNTER_OK]"
    by (simp add: main_counts [OF argc k small] d0)
  from z a b show ?thesis by blast
qed

theorem C9_no_digits_means_zero_witness:
  "\<not> (\<exists>ws sg d rest. ''abc'' = ws @ sg @ d # rest \<and> (\<forall>c\<in>set ws. isspace c)
             \<and> (sg = [] \<or> sg = ''+'' \<or> sg = ''-'') \<and> isdigit d)
   \<and> strtoull ''abc'' = 0
   \<and> main [''counter'', ''abc''] world0 = main [''counter'', ''0''] world0
   \<and> (\<exists>w'. main [''counter'', ''abc''] world0 = Some (0, w')
         \<and> out w' = ''0'' @ [CHR 0x0A]
         \<and> calls w' = [Create 1, Get 1 0, Destroy 1 0])"
proof -
  note t = C9_no_digits_means_zero [OF abc_has_no_numeric_prefix, of "''counter''" world0]
  have "\<exists>w'. main [''counter'', ''abc''] world0 = Some (0, w')
         \<and> out w' = ''0'' @ [CHR 0x0A]
         \<and> calls w' = [Create 1, Get 1 0, Destroy 1 0]"
    using t [THEN conjunct2, THEN conjunct2] by (simp add: world0_def COUNTER_OK_def)
  with abc_has_no_numeric_prefix t [THEN conjunct1] t [THEN conjunct2, THEN conjunct1]
  show ?thesis by (intro conjI)
qed

text \<open>
  C10. Two argument vectors of length at least 2 with the same entry at index 1, started
  in the same world: the driver's result (exit status, output and all) is the same. The
  program name and the arguments after the first have no influence.
\<close>

theorem C10_only_first_argument_matters:
  assumes "2 \<le> length a" and "2 \<le> length b" and "a ! 1 = b ! 1"
  shows "main a w = main b w"
  using assms by (simp add: main_def)

theorem C10_only_first_argument_matters_witness:
  "2 \<le> length [''counter'', ''3'', ''x''] \<and> 2 \<le> length [''other'', ''3'']
   \<and> [''counter'', ''3'', ''x''] ! 1 = [''other'', ''3''] ! 1
   \<and> main [''counter'', ''3'', ''x''] world0 = main [''other'', ''3''] world0"
  using C10_only_first_argument_matters [of "[''counter'', ''3'', ''x'']" "[''other'', ''3'']" world0]
  by simp

end
